theory Spec2Isabelle
  imports Complex_Main "HOL-Library.Word"
begin

unbundle bit_operations_syntax

section \<open>Supercharge: ROM to Supercharger WAV conversion\<close>

text \<open>
  A shallow embedding of package \<^verbatim>\<open>supercharge\<close> (\<^verbatim>\<open>Convert\<close>, \<^verbatim>\<open>tone\<close>,
  \<^verbatim>\<open>bitPacker\<close>, \<^verbatim>\<open>wav\<close>). Go's \<^verbatim>\<open>byte\<close>, \<^verbatim>\<open>uint16\<close> and \<^verbatim>\<open>uint32\<close> are
  words of that width; \<^verbatim>\<open>int\<close> lengths and loop counters are \<open>int\<close> or \<open>nat\<close> (no
  length here comes near 64 bits). A \<^verbatim>\<open>bytes.Buffer\<close> is the list of bytes written to
  it so far. The \<^verbatim>\<open>io.Writer\<close> the bit packer holds is always the \<^verbatim>\<open>wav\<close> value of
  \<^verbatim>\<open>Convert\<close>, so that value is passed in and returned. A \<^verbatim>\<open>float64\<close> is the real
  number it stands for. The two products \<^verbatim>\<open>duration * float64(bytesPerSecond)\<close> that
  \<^verbatim>\<open>Convert\<close> reaches are \<open>0.5 * 689\<close>, which float64 computes without rounding.
  The rounding in the float64 arithmetic of \<^verbatim>\<open>tone\<close> is an explicit error term
  (\<open>tone_float64\<close> below).
\<close>

type_synonym byte = "8 word"
type_synonym uint16 = "16 word"
type_synonym uint32 = "32 word"

subsection \<open>Constants\<close>

definition startToneSeconds :: real where "startToneSeconds = 1 / 10"
definition headerToneSeconds :: real where "headerToneSeconds = 1 / 2"
definition endToneSeconds :: real where "endToneSeconds = 1 / 2"

definition startToneCycle :: int where "startToneCycle = 51"
definition zeroToneCycle :: int where "zeroToneCycle = 6"
definition oneToneCycle :: int where "oneToneCycle = 10"

definition startToneVolume :: real where "startToneVolume = 98 / 100"
definition zeroToneVolume :: real where "zeroToneVolume = 98 / 100"
definition oneToneVolume :: real where "oneToneVolume = 98 / 100"

definition sampleRate :: int where "sampleRate = 44100"

subsection \<open>Conversions\<close>

text \<open>
  \<^verbatim>\<open>int(f)\<close> on a \<^verbatim>\<open>float64\<close> discards the fraction (truncation towards zero).
  \<^verbatim>\<open>byte(f)\<close> is that integer reduced to 8 bits; Go leaves the result to the
  implementation when the integer is not in 0..255, and the reduction modulo 256 is
  what the amd64 targets of \<^verbatim>\<open>build.sh\<close> do.
\<close>

definition float_to_int :: "real \<Rightarrow> int" where
  "float_to_int f = (if f < 0 then - \<lfloor>- f\<rfloor> else \<lfloor>f\<rfloor>)"

definition float_to_byte :: "real \<Rightarrow> byte" where
  "float_to_byte f = word_of_int (float_to_int f)"

text \<open>\<^verbatim>\<open>[]byte("RIFF")\<close>: the bytes of an ASCII string literal.\<close>

definition bytes_of_string :: "string \<Rightarrow> byte list" where
  "bytes_of_string s = map (\<lambda>c. word_of_nat (of_char c)) s"

subsection \<open>Tone synthesis\<close>

text \<open>
  \<^verbatim>\<open>tone(w, length, volume)\<close> writes one byte per loop round to \<^verbatim>\<open>w\<close>; every caller
  passes a fresh buffer, so the model returns the bytes written.
\<close>

definition tone :: "int \<Rightarrow> real \<Rightarrow> byte list" where
  "tone len volume =
     (let m = 2 * pi / real_of_int len
      in map (\<lambda>i. let x = m * real i;
                      y = (sin x * volume + 1) * 128
                  in float_to_byte y) [0..<nat len])"

text \<open>
  In \<open>tone\<close> the arithmetic is exact. In float64 the value of \<^verbatim>\<open>y\<close> in round \<open>i\<close>
  differs from the exact value by the rounding of each float64 operation and of
  \<^verbatim>\<open>math.Sin\<close>; \<open>err i\<close> is that difference, so the code is \<open>tone_float64 err\<close> for
  the errors its float64 arithmetic makes, and \<open>tone\<close> is the case of no error.
  The length of the table is the same for every \<open>err\<close>, and what is proved of
  \<^verbatim>\<open>Convert\<close> uses nothing of its tables but their lengths.
\<close>

definition tone_float64 :: "(nat \<Rightarrow> real) \<Rightarrow> int \<Rightarrow> real \<Rightarrow> byte list" where
  "tone_float64 err len volume =
     (let m = 2 * pi / real_of_int len
      in map (\<lambda>i. let x = m * real i;
                      y = (sin x * volume + 1) * 128 + err i
                  in float_to_byte y) [0..<nat len])"

subsection \<open>The wav writer\<close>

record wav =
  format :: uint16
  channels :: uint16
  hz :: uint32
  depth :: uint16
  data :: "byte list"

text \<open>\<^verbatim>\<open>wav.Write\<close>: every byte is appended once per channel; returns the new state
  and the count \<^verbatim>\<open>n\<close>.\<close>

definition wav_Write :: "wav \<Rightarrow> byte list \<Rightarrow> wav \<times> int" where
  "wav_Write w p =
     (w\<lparr>data := data w @ concat (map (\<lambda>b. replicate (unat (channels w)) b) p)\<rparr>,
      int (length p * unat (channels w)))"

text \<open>\<^verbatim>\<open>wav.Bytes\<close>: the container file.\<close>

definition wav_Bytes :: "wav \<Rightarrow> byte list" where
  "wav_Bytes w =
     (let fmtSubChunk =
            [ucast (format w), ucast (drop_bit 8 (format w))]
          @ [ucast (channels w), ucast (drop_bit 8 (channels w))]
          @ [ucast (wav.hz w), ucast (drop_bit 8 (wav.hz w)),
             ucast (drop_bit 16 (wav.hz w)), ucast (drop_bit 24 (wav.hz w))]
          @ [ucast (wav.hz w), ucast (drop_bit 8 (wav.hz w)),
             ucast (drop_bit 16 (wav.hz w)), ucast (drop_bit 24 (wav.hz w))];
          blockAlign = channels w AND depth w;
          fmtSubChunk = fmtSubChunk
          @ [ucast blockAlign, ucast (drop_bit 8 blockAlign)]
          @ [ucast (depth w), ucast (drop_bit 8 (depth w))];
          waveChunk = bytes_of_string ''WAVE'' @ bytes_of_string ''fmt '';
          l = int (length fmtSubChunk);
          waveChunk = waveChunk
          @ [word_of_int l, word_of_int (drop_bit 8 l),
             word_of_int (drop_bit 16 l), word_of_int (drop_bit 24 l)]
          @ fmtSubChunk
          @ bytes_of_string ''data'';
          l = int (length (data w));
          waveChunk = waveChunk
          @ [word_of_int l, word_of_int (drop_bit 8 l),
             word_of_int (drop_bit 16 l), word_of_int (drop_bit 24 l)]
          @ data w;
          l = int (length waveChunk)
      in bytes_of_string ''RIFF''
         @ [word_of_int l, word_of_int (drop_bit 8 l),
            word_of_int (drop_bit 16 l), word_of_int (drop_bit 24 l)]
         @ waveChunk)"

subsection \<open>The bit packer\<close>

record bitPacker =
  hz :: uint32
  zeroBit :: "byte list"
  oneBit :: "byte list"
  bytesPerSecond :: uint32

definition newBitPacker :: "uint32 \<Rightarrow> bitPacker" where
  "newBitPacker rate =
     \<lparr>hz = rate,
      zeroBit = tone zeroToneCycle zeroToneVolume,
      oneBit = tone oneToneCycle oneToneVolume,
      bytesPerSecond = rate div (word_of_int zeroToneCycle + word_of_int oneToneCycle) div 4\<rparr>"

text \<open>
  \<^verbatim>\<open>writeByte\<close>: the loop \<^verbatim>\<open>for i := 0; i < 8; i++\<close>, with the number of rounds still
  to run as the first argument of \<open>writeByte_loop\<close>.
\<close>

fun writeByte_loop :: "nat \<Rightarrow> bitPacker \<Rightarrow> byte \<Rightarrow> wav \<Rightarrow> wav" where
  "writeByte_loop 0 pck b w = w"
| "writeByte_loop (Suc n) pck b w =
     writeByte_loop n pck (push_bit 1 b)
       (if b AND 0x80 = 0x80 then fst (wav_Write w (oneBit pck))
        else fst (wav_Write w (zeroBit pck)))"

definition writeByte :: "bitPacker \<Rightarrow> byte \<Rightarrow> wav \<Rightarrow> wav" where
  "writeByte pck b w = writeByte_loop 8 pck b w"

text \<open>
  \<^verbatim>\<open>writeByteDuration\<close>: the loop body is \<^verbatim>\<open>pck.writeByte(0x55)\<close>, whatever \<^verbatim>\<open>b\<close> is.
  A negative \<^verbatim>\<open>int(ct)\<close> runs no round, as \<open>nat\<close> of it is 0. The product is
  taken exactly; float64 rounds it, which changes nothing at the \<open>0.5 * 689 = 344.5\<close>
  of both calls in \<^verbatim>\<open>Convert\<close>.
\<close>

definition writeByteDuration :: "bitPacker \<Rightarrow> byte \<Rightarrow> real \<Rightarrow> wav \<Rightarrow> wav" where
  "writeByteDuration pck b duration w =
     (let ct = duration * real (unat (bytesPerSecond pck))
      in (writeByte pck 0x55 ^^ nat (float_to_int ct)) w)"

subsection \<open>Convert\<close>

text \<open>\<^verbatim>\<open>for _, b := range bs { pck.writeByte(b) }\<close>\<close>

definition writeBytes :: "bitPacker \<Rightarrow> byte list \<Rightarrow> wav \<Rightarrow> wav" where
  "writeBytes pck bs w = foldl (\<lambda>w b. writeByte pck b w) w bs"

text \<open>The page number of a block (lines 240 to 243), in \<^verbatim>\<open>byte\<close> arithmetic.\<close>

definition blockPage :: "byte \<Rightarrow> byte" where
  "blockPage block =
     (let page = block * 4 + 1
      in if page > 0x1f then page - 0x1f else page)"

text \<open>
  The checksum of a block (lines 246 to 251). \<^verbatim>\<open>rom[s : s+256]\<close> is
  \<open>take 256 (drop s rom)\<close>; the slice is in range for every block the loop reaches,
  since \<^verbatim>\<open>blockCount\<close> is at most \<^verbatim>\<open>len(rom) / 256\<close>.
\<close>

definition blockChecksum :: "byte list \<Rightarrow> byte \<Rightarrow> byte" where
  "blockChecksum rom block =
     (let checksum = 0x55;
          checksum = checksum - blockPage block;
          s = unat block * 256
      in foldl (\<lambda>checksum b. checksum - b) checksum (take 256 (drop s rom)))"

text \<open>
  The loop over the blocks (lines 239 to 265), \<^verbatim>\<open>block\<close> a \<^verbatim>\<open>byte\<close> counting up to
  \<^verbatim>\<open>blockCount\<close>. The lines written to the logger are left out: the logger is a
  separate writer and nothing read from it reaches the wav.
\<close>

function blockLoop :: "bitPacker \<Rightarrow> byte list \<Rightarrow> byte \<Rightarrow> byte \<Rightarrow> wav \<Rightarrow> wav" where
  "blockLoop pck rom blockCount block w =
     (if block < blockCount then
        let page = blockPage block;
            checksum = blockChecksum rom block;
            w = writeByte pck page w;
            w = writeByte pck checksum w;
            s = unat block * 256;
            w = writeBytes pck (take 256 (drop s rom)) w
        in blockLoop pck rom blockCount (block + 1) w
      else w)"
  by pat_completeness auto
termination
proof (relation "measure (\<lambda>(pck, rom, blockCount, block, w). unat blockCount - unat block)")
  show "wf (measure (\<lambda>(pck :: bitPacker, rom :: byte list, blockCount :: byte, block :: byte, w :: wav).
              unat blockCount - unat block))"
    by simp
next
  fix pck :: bitPacker and rom :: "byte list" and blockCount block :: byte
    and w x xa xb xc xd xe :: wav and p c :: byte and s :: nat
  assume lt: "block < blockCount"
  have less: "unat block < unat blockCount"
    using lt by (simp add: word_less_nat_alt)
  moreover have "unat blockCount < 2 ^ 8"
    using unsigned_less [of blockCount] by simp
  ultimately have "unat block + 1 < 2 ^ 8"
    by linarith
  then have "unat (block + 1) = Suc (unat block)"
    by (simp add: unat_word_ariths)
  with less show "((pck, rom, blockCount, block + 1, xe), (pck, rom, blockCount, block, w))
      \<in> measure (\<lambda>(pck, rom, blockCount, block, w). unat blockCount - unat block)"
    by simp
qed

datatype error = IndexOutOfRange

text \<open>
  The state of the local \<^verbatim>\<open>wav\<close> of \<^verbatim>\<open>Convert\<close> when line 273 is reached, for a rom
  of at least 4 bytes. The constant expression \<^verbatim>\<open>startToneSeconds * sampleRate /
  startToneCycle\<close> is exact in Go. The lines that format the header for the logger
  (210 to 215) are left out, as in the loop.
\<close>

definition Convert_wav :: "byte list \<Rightarrow> wav" where
  "Convert_wav rom =
     (let w = \<lparr>format = 1, channels = 1, hz = word_of_int sampleRate, depth = 8, data = []\<rparr>;
          start = tone startToneCycle startToneVolume;
          ct = startToneSeconds * real_of_int sampleRate / real_of_int startToneCycle;
          w = ((\<lambda>w. fst (wav_Write w start)) ^^ nat (float_to_int ct)) w;
          pck = newBitPacker (word_of_int sampleRate);
          w = writeByteDuration pck 0x55 headerToneSeconds w;
          w = writeByte pck 0x54 w;
          addressLow = rom ! (length rom - 4);
          addressHigh = rom ! (length rom - 3);
          bankConfig = 0x1d;
          blockCount = word_of_nat (length rom div 256);
          multiload = 0;
          progressSpeedLow = 0xc3;
          progressSpeedHigh = 0x01;
          checksum = 0x55 - addressLow - addressHigh - bankConfig - blockCount - multiload
                       - progressSpeedLow - progressSpeedHigh;
          w = writeByte pck addressLow w;
          w = writeByte pck addressHigh w;
          w = writeByte pck bankConfig w;
          w = writeByte pck blockCount w;
          w = writeByte pck checksum w;
          w = writeByte pck multiload w;
          w = writeByte pck progressSpeedLow w;
          w = writeByte pck progressSpeedHigh w;
          w = blockLoop pck rom blockCount 0 w
      in writeByteDuration pck 0x00 endToneSeconds w)"

text \<open>
  \<^verbatim>\<open>Convert\<close>: the bytes written to \<^verbatim>\<open>w\<close>. A rom shorter than 4 bytes panics at
  \<^verbatim>\<open>rom[len(rom)-4]\<close>, before anything is written.
\<close>

definition Convert :: "byte list \<Rightarrow> error + byte list" where
  "Convert rom =
     (if length rom < 4 then Inl IndexOutOfRange
      else Inr (wav_Bytes (Convert_wav rom)))"

subsection \<open>Reading the container back\<close>

text \<open>
  The repository has no reader. For the round trip of the \<^verbatim>\<open>"fmt "\<close> sub-chunk the
  file is decoded by the RIFF layout the specification names: the tag \<^verbatim>\<open>RIFF\<close> and a
  32-bit size, the tag \<^verbatim>\<open>WAVE\<close>, the tag \<^verbatim>\<open>fmt \<close> and its 32-bit size 16, then the
  format code, the channel count, the sample rate, the byte rate, the block align and
  the bit depth, every number little-endian.
\<close>

record fmtChunk =
  audioFormat :: uint16
  numChannels :: uint16
  samplesPerSec :: uint32
  avgBytesPerSec :: uint32
  blockAlign :: uint16
  bitsPerSample :: uint16

definition le16 :: "byte list \<Rightarrow> uint16" where
  "le16 bs = ucast (bs ! 0) OR push_bit 8 (ucast (bs ! 1))"

definition le32 :: "byte list \<Rightarrow> uint32" where
  "le32 bs = ucast (bs ! 0) OR push_bit 8 (ucast (bs ! 1))
             OR push_bit 16 (ucast (bs ! 2)) OR push_bit 24 (ucast (bs ! 3))"

definition decode_fmt :: "byte list \<Rightarrow> fmtChunk option" where
  "decode_fmt file =
     (if 36 \<le> length file
         \<and> take 4 file = bytes_of_string ''RIFF''
         \<and> take 4 (drop 8 file) = bytes_of_string ''WAVE''
         \<and> take 4 (drop 12 file) = bytes_of_string ''fmt ''
         \<and> le32 (drop 16 file) = 16
      then Some \<lparr>audioFormat = le16 (drop 20 file),
                 numChannels = le16 (drop 22 file),
                 samplesPerSec = le32 (drop 24 file),
                 avgBytesPerSec = le32 (drop 28 file),
                 blockAlign = le16 (drop 32 file),
                 bitsPerSample = le16 (drop 34 file)\<rparr>
      else None)"

subsection \<open>The packer and the start tone of Convert\<close>

text \<open>
  Two values every run of \<^verbatim>\<open>Convert\<close> builds, named to state what it writes: the
  packer of line 165, and the wav at line 163, when the 86 cycles of the start tone
  have been written (\<^verbatim>\<open>int(0.1 * 44100 / 51)\<close> is 86).
\<close>

abbreviation packer :: bitPacker where
  "packer \<equiv> newBitPacker 44100"

abbreviation startWav :: wav where
  "startWav \<equiv> \<lparr>format = 1, channels = 1, hz = 44100, depth = 8,
                data = concat (replicate 86 (tone 51 (98 / 100)))\<rparr>"

subsection \<open>Counting samples\<close>

text \<open>
  The number of samples \<^verbatim>\<open>writeByte(b)\<close> appends with the tables of \<^verbatim>\<open>newBitPacker\<close>
  (10 samples for a one, 6 for a zero) on a wav of one channel; used to count the
  samples of a whole conversion.
\<close>

definition byteSamples :: "byte \<Rightarrow> nat" where
  "byteSamples b = (\<Sum>k\<leftarrow>[7, 6, 5, 4, 3, 2, 1, 0]. if bit b k then 10 else 6)"

section \<open>Properties\<close>

subsection \<open>Writing to the wav\<close>

lemma wav_Write_data:
  "data (fst (wav_Write w p)) = data w @ concat (map (\<lambda>b. replicate (unat (channels w)) b) p)"
  by (simp add: wav_Write_def)

lemma wav_Write_channels [simp]: "channels (fst (wav_Write w p)) = channels w"
  by (simp add: wav_Write_def)

lemma wav_Write_mono:
  "channels w = 1 \<Longrightarrow> fst (wav_Write w p) = w\<lparr>data := data w @ p\<rparr>"
  by (simp add: wav_Write_def concat_map_singleton)

lemma writeBytes_Nil [simp]: "writeBytes pck [] w = w"
  by (simp add: writeBytes_def)

lemma writeBytes_Cons [simp]: "writeBytes pck (b # bs) w = writeBytes pck bs (writeByte pck b w)"
  by (simp add: writeBytes_def)

lemma writeBytes_append [simp]:
  "writeBytes pck (as @ bs) w = writeBytes pck bs (writeBytes pck as w)"
  by (simp add: writeBytes_def)

lemma funpow_writeByte: "(writeByte pck b ^^ n) w = writeBytes pck (replicate n b) w"
  by (induction n arbitrary: w) (simp_all add: funpow_Suc_right del: funpow.simps)

lemma writeByteDuration_half:
  "writeByteDuration (newBitPacker (word_of_int sampleRate)) b (1 / 2) w =
     writeBytes (newBitPacker (word_of_int sampleRate)) (replicate 344 0x55) w"
  by (simp add: writeByteDuration_def newBitPacker_def sampleRate_def zeroToneCycle_def
      oneToneCycle_def float_to_int_def funpow_writeByte)

lemma unat_inc_less: "(b::'a::len word) < c \<Longrightarrow> unat (b + 1) = Suc (unat b)"
proof -
  assume lt: "b < c"
  have "unat b < unat c" using lt by (simp add: word_less_nat_alt)
  moreover have "unat c < 2 ^ LENGTH('a)" by (rule unsigned_less)
  ultimately have "unat b + 1 < 2 ^ LENGTH('a)" by linarith
  then show ?thesis by (simp add: unat_word_ariths)
qed

declare blockLoop.simps [simp del]

lemma blockLoop_tape:
  "block \<le> blockCount \<Longrightarrow>
   blockLoop pck rom blockCount block w =
     writeBytes pck
       (concat (map (\<lambda>k. [blockPage (word_of_nat k), blockChecksum rom (word_of_nat k)]
                          @ take 256 (drop (k * 256) rom))
                [unat block..<unat blockCount])) w"
proof (induction pck rom blockCount block w rule: blockLoop.induct)
  case (1 pck rom blockCount block w)
  show ?case
  proof (cases "block < blockCount")
    case True
    then have suc: "unat (block + 1) = Suc (unat block)"
      by (rule unat_inc_less)
    have lt: "unat block < unat blockCount"
      using True by (simp add: word_less_nat_alt)
    then have le: "block + 1 \<le> blockCount"
      using True by (simp add: inc_le)
    have upt: "[unat block..<unat blockCount] = unat block # [unat (block + 1)..<unat blockCount]"
      using lt suc by (simp add: upt_conv_Cons)
    define w' where "w' = writeBytes pck (take 256 (drop (unat block * 256) rom))
        (writeByte pck (blockChecksum rom block) (writeByte pck (blockPage block) w))"
    have ih: "blockLoop pck rom blockCount (block + 1) w' =
        writeBytes pck
         (concat (map (\<lambda>k. [blockPage (word_of_nat k), blockChecksum rom (word_of_nat k)]
                          @ take 256 (drop (k * 256) rom))
                [unat (block + 1)..<unat blockCount])) w'"
      unfolding w'_def by (rule "1.IH" [OF True refl refl refl refl refl refl le])
    have step: "blockLoop pck rom blockCount block w = blockLoop pck rom blockCount (block + 1) w'"
      unfolding w'_def by (subst blockLoop.simps) (simp add: True)
    show ?thesis
      by (simp add: step [unfolded w'_def] ih [unfolded w'_def] upt)
  next
    case False
    with "1.prems" have "block = blockCount" by simp
    then show ?thesis
      by (subst blockLoop.simps) simp
  qed
qed

lemma funpow_wav_Write:
  "channels w = 1 \<Longrightarrow>
   ((\<lambda>w. fst (wav_Write w p)) ^^ n) w = w\<lparr>data := data w @ concat (replicate n p)\<rparr>"
proof (induction n arbitrary: w)
  case 0
  then show ?case by simp
next
  case (Suc n)
  have "((\<lambda>w. fst (wav_Write w p)) ^^ Suc n) w =
      ((\<lambda>w. fst (wav_Write w p)) ^^ n) (fst (wav_Write w p))"
    by (simp only: funpow_Suc_right o_apply)
  also have "\<dots> = (fst (wav_Write w p))\<lparr>data := data (fst (wav_Write w p)) @ concat (replicate n p)\<rparr>"
    using Suc.prems by (intro Suc.IH) simp
  also have "\<dots> = w\<lparr>data := data w @ concat (replicate (Suc n) p)\<rparr>"
    using Suc.prems by (simp add: wav_Write_mono)
  finally show ?case .
qed

lemma Convert_wav_tape:
  assumes "length rom = 4096"
  shows "Convert_wav rom =
    writeBytes (newBitPacker 44100)
      (replicate 344 0x55 @ [0x54]
       @ [rom ! 4092, rom ! 4093, 0x1d, 0x10,
          0x55 - rom ! 4092 - rom ! 4093 - 0x1d - 0x10 - 0 - 0xc3 - 0x01,
          0, 0xc3, 0x01]
       @ concat (map (\<lambda>k. [blockPage (word_of_nat k), blockChecksum rom (word_of_nat k)]
                            @ take 256 (drop (k * 256) rom)) [0..<16])
       @ replicate 344 0x55)
      \<lparr>format = 1, channels = 1, hz = 44100, depth = 8,
       data = concat (replicate 86 (tone 51 (98 / 100)))\<rparr>"
proof -
  have bl: "blockLoop pck rom 16 0 w =
      writeBytes pck (concat (map (\<lambda>k. [blockPage (word_of_nat k), blockChecksum rom (word_of_nat k)]
                            @ take 256 (drop (k * 256) rom)) [0..<16])) w" for pck w
    using blockLoop_tape [of 0 16 pck rom w] by simp
  have sr: "word_of_int sampleRate = (44100 :: uint32)"
    by (simp add: sampleRate_def)
  show ?thesis
    unfolding Convert_wav_def Let_def
    by (simp add: assms bl headerToneSeconds_def endToneSeconds_def
        writeByteDuration_half [unfolded sr] sr funpow_wav_Write startToneSeconds_def
        startToneCycle_def startToneVolume_def float_to_int_def sampleRate_def)
qed

lemma and_exp_eq_exp_iff_bit:
  "(x :: 'a :: len word) AND 2 ^ n = 2 ^ n \<longleftrightarrow> bit x n" if "n < LENGTH('a)"
proof
  assume "x AND 2 ^ n = 2 ^ n"
  moreover have "(2 :: 'a word) ^ n \<noteq> 0"
    using that by simp
  ultimately have "x AND 2 ^ n \<noteq> 0" by simp
  then show "bit x n" by (simp only: and_exp_eq_0_iff_not_bit not_not)
next
  assume "bit x n"
  then show "x AND 2 ^ n = 2 ^ n"
    by (intro bit_eqI) (auto simp add: bit_and_iff bit_exp_iff)
qed

lemma msb_test: "(x :: byte) AND 0x80 = 0x80 \<longleftrightarrow> bit x 7"
  using and_exp_eq_exp_iff_bit [of 7 x] by simp

lemma writeByte_loop_data:
  "channels w = 1 \<Longrightarrow>
   writeByte_loop n pck b w =
     w\<lparr>data := data w @ concat (map (\<lambda>j. if bit (push_bit j b) 7 then oneBit pck else zeroBit pck) [0..<n])\<rparr>"
proof (induction n arbitrary: b w)
  case 0
  then show ?case by simp
next
  case (Suc n)
  define w' where "w' = (if b AND 0x80 = 0x80 then fst (wav_Write w (oneBit pck))
        else fst (wav_Write w (zeroBit pck)))"
  have ch: "channels w' = 1"
    using Suc.prems by (simp add: w'_def)
  have w': "w' = w\<lparr>data := data w @ (if bit b 7 then oneBit pck else zeroBit pck)\<rparr>"
    using Suc.prems by (simp add: w'_def msb_test wav_Write_mono)
  have "writeByte_loop (Suc n) pck b w = writeByte_loop n pck (push_bit 1 b) w'"
    by (simp add: w'_def)
  also have "\<dots> = w'\<lparr>data := data w' @ concat (map (\<lambda>j. if bit (push_bit j (push_bit 1 b)) 7
        then oneBit pck else zeroBit pck) [0..<n])\<rparr>"
    by (rule Suc.IH [OF ch])
  also have "\<dots> = w\<lparr>data := data w @ concat (map (\<lambda>j. if bit (push_bit j b) 7
        then oneBit pck else zeroBit pck) [0..<Suc n])\<rparr>"
    by (simp add: w' upt_conv_Cons map_Suc_upt [symmetric] comp_def del: upt_Suc)
  finally show ?case .
qed


lemma writeByte_data:
  assumes "channels w = 1"
  shows "writeByte pck b w =
     w\<lparr>data := data w @ concat (map (\<lambda>k. if bit b k then oneBit pck else zeroBit pck)
        [7, 6, 5, 4, 3, 2, 1, 0])\<rparr>"
proof -
  have upt8: "[0..<8] = [0, 1, 2, 3, 4, 5, 6, 7]"
    by (simp add: upt_conv_Cons)
  show ?thesis
    unfolding writeByte_def writeByte_loop_data [OF assms] upt8
    by (simp add: bit_push_bit_iff)
qed

lemma writeByte_channels: "channels w = 1 \<Longrightarrow> channels (writeByte pck b w) = 1"
  by (simp add: writeByte_data)

lemma writeBytes_data:
  "channels w = 1 \<Longrightarrow>
   writeBytes pck bs w =
     w\<lparr>data := data w @ concat (map (\<lambda>b. concat (map (\<lambda>k. if bit b k then oneBit pck else zeroBit pck)
        [7, 6, 5, 4, 3, 2, 1, 0])) bs)\<rparr>"
proof (induction bs arbitrary: w)
  case Nil
  then show ?case by simp
next
  case (Cons b bs)
  have "writeBytes pck (b # bs) w = writeBytes pck bs (writeByte pck b w)"
    by simp
  also have "\<dots> = (writeByte pck b w)\<lparr>data := data (writeByte pck b w) @
      concat (map (\<lambda>b. concat (map (\<lambda>k. if bit b k then oneBit pck else zeroBit pck)
        [7, 6, 5, 4, 3, 2, 1, 0])) bs)\<rparr>"
    by (rule Cons.IH) (simp add: writeByte_channels Cons.prems)
  finally show ?case
    by (simp add: writeByte_data [OF Cons.prems])
qed

lemma tone_length: "length (tone len volume) = nat len"
  by (simp add: tone_def)

subsection \<open>The bit packer\<close>

text \<open>
  Claim C7. On a wav of one channel, \<^verbatim>\<open>writeByte(b)\<close> changes nothing but the data,
  to which it appends, for the bits 7 down to 0 of \<open>b\<close> in that order, the whole
  one-tone table where the bit is 1 and the whole zero-tone table where it is 0; the
  tables of a packer made by \<^verbatim>\<open>newBitPacker\<close> have 10 and 6 samples.
\<close>

theorem writeByte_msb_first:
  assumes "channels w = 1"
  shows "writeByte pck b w =
           w\<lparr>data := data w @ concat (map (\<lambda>k. if bit b k then oneBit pck else zeroBit pck)
              [7, 6, 5, 4, 3, 2, 1, 0])\<rparr>
         \<and> length (oneBit (newBitPacker rate)) = 10
         \<and> length (zeroBit (newBitPacker rate)) = 6"
  using assms
  by (simp add: writeByte_data newBitPacker_def tone_length oneToneCycle_def zeroToneCycle_def)

theorem writeByte_msb_first_witness:
  "channels \<lparr>format = 1, channels = 1, hz = 44100, depth = 8, data = [9]\<rparr> = 1
   \<and> writeByte \<lparr>hz = 44100, zeroBit = [0, 0], oneBit = [1], bytesPerSecond = 689\<rparr> 0xA5
         \<lparr>format = 1, channels = 1, hz = 44100, depth = 8, data = [9]\<rparr>
       = \<lparr>format = 1, channels = 1, hz = 44100, depth = 8,
          data = [9, 1, 0, 0, 1, 0, 0, 0, 0, 1, 0, 0, 1]\<rparr>"
  using writeByte_msb_first [of "\<lparr>format = 1, channels = 1, hz = 44100, depth = 8, data = [9]\<rparr>"
      "\<lparr>hz = 44100, zeroBit = [0, 0], oneBit = [1], bytesPerSecond = 689\<rparr>" "0xA5" 0]
  by simp

text \<open>
  Claim C1. \<^verbatim>\<open>writeByteDuration\<close> does not write its argument \<open>b\<close>: the trailer call
  \<^verbatim>\<open>writeByteDuration(0x00, endToneSeconds)\<close> of \<^verbatim>\<open>Convert\<close> runs
  \<^verbatim>\<open>writeByte(0x55)\<close> 344 times, which appends 22016 samples, where 344 runs of
  \<^verbatim>\<open>writeByte(0x00)\<close> append 16512 samples.
\<close>

theorem writeByteDuration_trailer_writes_0x55:
  "writeByteDuration (newBitPacker 44100) 0x00 endToneSeconds
       \<lparr>format = 1, channels = 1, hz = 44100, depth = 8, data = []\<rparr>
     = (writeByte (newBitPacker 44100) 0x55 ^^ 344)
       \<lparr>format = 1, channels = 1, hz = 44100, depth = 8, data = []\<rparr>
   \<and> length (data (writeByteDuration (newBitPacker 44100) 0x00 endToneSeconds
       \<lparr>format = 1, channels = 1, hz = 44100, depth = 8, data = []\<rparr>)) = 22016
   \<and> length (data ((writeByte (newBitPacker 44100) 0x00 ^^ 344)
       \<lparr>format = 1, channels = 1, hz = 44100, depth = 8, data = []\<rparr>)) = 16512"
proof -
  have sr: "word_of_int sampleRate = (44100 :: uint32)"
    by (simp add: sampleRate_def)
  have l1: "length (oneBit (newBitPacker 44100)) = 10"
    and l0: "length (zeroBit (newBitPacker 44100)) = 6"
    by (simp_all add: newBitPacker_def tone_length oneToneCycle_def zeroToneCycle_def)
  show ?thesis
    unfolding funpow_writeByte
    by (simp add: endToneSeconds_def writeByteDuration_half [unfolded sr] writeBytes_data
        map_replicate_const length_concat sum_list_replicate l1 l0 o_def)
qed

subsection \<open>The container\<close>

lemma wav_Bytes_length: "length (wav_Bytes w) = 44 + length (data w)"
  by (simp add: wav_Bytes_def bytes_of_string_def Let_def)

lemma wav_Bytes_layout:
  "wav_Bytes w =
     bytes_of_string ''RIFF''
     @ [word_of_nat (36 + length (data w)), word_of_int (drop_bit 8 (36 + int (length (data w)))),
        word_of_int (drop_bit 16 (36 + int (length (data w)))),
        word_of_int (drop_bit 24 (36 + int (length (data w))))]
     @ bytes_of_string ''WAVE'' @ bytes_of_string ''fmt '' @ [16, 0, 0, 0]
     @ [ucast (format w), ucast (drop_bit 8 (format w))]
     @ [ucast (channels w), ucast (drop_bit 8 (channels w))]
     @ [ucast (wav.hz w), ucast (drop_bit 8 (wav.hz w)),
        ucast (drop_bit 16 (wav.hz w)), ucast (drop_bit 24 (wav.hz w))]
     @ [ucast (wav.hz w), ucast (drop_bit 8 (wav.hz w)),
        ucast (drop_bit 16 (wav.hz w)), ucast (drop_bit 24 (wav.hz w))]
     @ [ucast (channels w AND depth w), ucast (drop_bit 8 (channels w AND depth w))]
     @ [ucast (depth w), ucast (drop_bit 8 (depth w))]
     @ bytes_of_string ''data''
     @ [word_of_nat (length (data w)), word_of_int (drop_bit 8 (int (length (data w)))),
        word_of_int (drop_bit 16 (int (length (data w)))),
        word_of_int (drop_bit 24 (int (length (data w))))]
     @ data w"
  by (simp add: wav_Bytes_def bytes_of_string_def Let_def add.commute)

lemma Convert_wav_fields:
  assumes "length rom = 4096"
  shows "format (Convert_wav rom) = 1" and "channels (Convert_wav rom) = 1"
    and "wav.hz (Convert_wav rom) = 44100" and "depth (Convert_wav rom) = 8"
proof -
  obtain T where "Convert_wav rom = writeBytes (newBitPacker 44100) T
      \<lparr>format = 1, channels = 1, hz = 44100, depth = 8,
       data = concat (replicate 86 (tone 51 (98 / 100)))\<rparr>"
    using Convert_wav_tape [OF assms] by blast
  then show "format (Convert_wav rom) = 1" and "channels (Convert_wav rom) = 1"
    and "wav.hz (Convert_wav rom) = 44100" and "depth (Convert_wav rom) = 8"
    by (simp_all add: writeBytes_data)
qed

lemma Convert_4096: "length rom = 4096 \<Longrightarrow> Convert rom = Inr (wav_Bytes (Convert_wav rom))"
  by (simp add: Convert_def)

lemma le16_bytes: "le16 (ucast x # ucast (drop_bit 8 x) # rest) = (x :: uint16)"
  unfolding le16_def
  by (rule bit_eqI) (auto simp add: bit_simps not_less)

lemma le32_bytes:
  "le32 (ucast x # ucast (drop_bit 8 x) # ucast (drop_bit 16 x) # ucast (drop_bit 24 x) # rest)
     = (x :: uint32)" (is "?l = _")
proof (rule bit_eqI)
  fix n
  assume "possible_bit TYPE(uint32) n"
  then have n: "n < 32" by (simp add: possible_bit_def)
  consider "n < 8" | "8 \<le> n" "n < 16" | "16 \<le> n" "n < 24" | "24 \<le> n"
    by linarith
  then show "bit ?l n = bit x n"
    using n by cases (auto simp add: le32_def bit_simps)
qed

lemma decode_fmt_wav_Bytes:
  "decode_fmt (wav_Bytes w) =
     Some \<lparr>audioFormat = format w, numChannels = channels w, samplesPerSec = wav.hz w,
           avgBytesPerSec = wav.hz w, blockAlign = channels w AND depth w,
           bitsPerSample = depth w\<rparr>"
proof -
  have "36 \<le> length (wav_Bytes w)"
    by (simp add: wav_Bytes_length)
  moreover have "take 4 (wav_Bytes w) = bytes_of_string ''RIFF''"
    and "take 4 (drop 8 (wav_Bytes w)) = bytes_of_string ''WAVE''"
    and "take 4 (drop 12 (wav_Bytes w)) = bytes_of_string ''fmt ''"
    by (simp_all add: wav_Bytes_layout bytes_of_string_def)
  moreover have "le32 (drop 16 (wav_Bytes w)) = 16"
    by (simp add: wav_Bytes_layout bytes_of_string_def le32_def)
  moreover have "le16 (drop 20 (wav_Bytes w)) = format w"
    and "le16 (drop 22 (wav_Bytes w)) = channels w"
    and "le32 (drop 24 (wav_Bytes w)) = wav.hz w"
    and "le32 (drop 28 (wav_Bytes w)) = wav.hz w"
    and "le16 (drop 32 (wav_Bytes w)) = channels w AND depth w"
    and "le16 (drop 34 (wav_Bytes w)) = depth w"
    by (simp_all add: wav_Bytes_layout bytes_of_string_def le16_bytes le32_bytes
        del: drop_bit_and)
  ultimately show ?thesis
    by (simp add: decode_fmt_def)
qed

text \<open>
  Claim C9. For every rom of 4096 bytes \<^verbatim>\<open>Convert\<close> returns a file whose
  \<^verbatim>\<open>"fmt "\<close> sub-chunk decodes to format code 1, one channel, sample rate 44100 and
  bit depth 8, whatever the rom holds.
\<close>

theorem fmt_round_trip:
  assumes "length rom = 4096"
  shows "\<exists>file fmt. Convert rom = Inr file \<and> decode_fmt file = Some fmt
           \<and> audioFormat fmt = 1 \<and> numChannels fmt = 1
           \<and> samplesPerSec fmt = 44100 \<and> bitsPerSample fmt = 8"
  using assms
  by (simp add: Convert_4096 decode_fmt_wav_Bytes Convert_wav_fields)

theorem fmt_round_trip_witness:
  "length (replicate 4096 (0 :: byte)) = 4096
   \<and> (\<exists>file fmt. Convert (replicate 4096 0) = Inr file \<and> decode_fmt file = Some fmt
           \<and> audioFormat fmt = 1 \<and> numChannels fmt = 1
           \<and> samplesPerSec fmt = 44100 \<and> bitsPerSample fmt = 8)"
proof -
  have len: "length (replicate 4096 (0 :: byte)) = 4096"
    by simp
  from len fmt_round_trip [OF len] show ?thesis
    by (rule conjI)
qed

text \<open>
  Claim C10. In the file \<^verbatim>\<open>Convert\<close> returns for a rom of 4096 bytes the block-align
  field is the bitwise AND of the channel count and the bit depth: both of its bytes
  (offsets 32 and 33) are 0, where channels times depth / 8 is 1.
\<close>

theorem blockAlign_is_and:
  assumes "length rom = 4096"
  shows "\<exists>file fmt. Convert rom = Inr file \<and> decode_fmt file = Some fmt
           \<and> blockAlign fmt = numChannels fmt AND bitsPerSample fmt
           \<and> numChannels fmt = 1 \<and> bitsPerSample fmt = 8
           \<and> blockAlign fmt = 0 \<and> file ! 32 = 0 \<and> file ! 33 = 0
           \<and> numChannels fmt * (bitsPerSample fmt div 8) = 1"
proof -
  have bytes: "wav_Bytes (Convert_wav rom) ! 32 = 0" "wav_Bytes (Convert_wav rom) ! 33 = 0"
    by (simp_all add: wav_Bytes_layout bytes_of_string_def Convert_wav_fields [OF assms])
  show ?thesis
    using assms by (simp add: Convert_4096 decode_fmt_wav_Bytes Convert_wav_fields bytes)
qed

theorem blockAlign_is_and_witness:
  "length (replicate 4096 (0 :: byte)) = 4096
   \<and> (\<exists>file fmt. Convert (replicate 4096 0) = Inr file \<and> decode_fmt file = Some fmt
           \<and> blockAlign fmt = numChannels fmt AND bitsPerSample fmt
           \<and> numChannels fmt = 1 \<and> bitsPerSample fmt = 8
           \<and> blockAlign fmt = 0 \<and> file ! 32 = 0 \<and> file ! 33 = 0
           \<and> numChannels fmt * (bitsPerSample fmt div 8) = 1)"
proof -
  have len: "length (replicate 4096 (0 :: byte)) = 4096"
    by simp
  from len blockAlign_is_and [OF len] show ?thesis
    by (rule conjI)
qed

text \<open>
  Claim C2, as the code has it. For every rom of 4096 bytes the file has 44 bytes more
  than the wav has buffered samples: the 44 bytes of framing end with the 8 bytes of
  the header of the data sub-chunk (its tag is at offset 36), and the samples follow
  from offset 44. The claim counts those 8 bytes twice; it fails on the rom of 4096
  zero bytes.
\<close>

theorem container_length:
  assumes "length rom = 4096"
  shows "\<exists>file. Convert rom = Inr file
           \<and> channels (Convert_wav rom) = 1
           \<and> length file = 44 + length (data (Convert_wav rom))
           \<and> take 4 (drop 36 file) = bytes_of_string ''data''
           \<and> drop 44 file = data (Convert_wav rom)"
  using assms
  by (simp add: Convert_4096 Convert_wav_fields wav_Bytes_length)
    (simp add: wav_Bytes_layout bytes_of_string_def)

theorem container_length_witness:
  "length (replicate 4096 (0 :: byte)) = 4096
   \<and> (\<exists>file. Convert (replicate 4096 0) = Inr file
           \<and> channels (Convert_wav (replicate 4096 0)) = 1
           \<and> length file = 44 + length (data (Convert_wav (replicate 4096 0)))
           \<and> take 4 (drop 36 file) = bytes_of_string ''data''
           \<and> drop 44 file = data (Convert_wav (replicate 4096 0)))"
proof -
  have len: "length (replicate 4096 (0 :: byte)) = 4096"
    by simp
  from len container_length [OF len] show ?thesis
    by (rule conjI)
qed

subsection \<open>The tape\<close>

text \<open>
  What \<^verbatim>\<open>Convert\<close> writes is stated through the bytes it hands to \<^verbatim>\<open>writeByte\<close>,
  in the order of the calls: the wav of \<^verbatim>\<open>Convert\<close> is \<open>writeBytes packer t startWav\<close>
  for a byte list \<open>t\<close>, the tape. On the tape the calibration run takes 344 bytes,
  the sync byte 1, the header 8 and every block 258, so block \<open>b\<close> starts at offset
  \<open>353 + 258 * b\<close>.
\<close>

lemma foldl_minus: "foldl (\<lambda>c b. c - b) c xs = c - sum_list xs" for c :: "'a :: ab_group_add"
  by (induction xs arbitrary: c) (simp_all add: algebra_simps)

lemma blockChecksum_eq:
  "blockChecksum rom block =
     0x55 - blockPage block - sum_list (take 256 (drop (unat block * 256) rom))"
  by (simp add: blockChecksum_def Let_def foldl_minus)

lemma word_of_nat_sum_list_unat:
  "word_of_nat (sum_list (map unat xs)) = sum_list xs" for xs :: "'a :: len word list"
  by (induction xs) simp_all

lemma blockPage_nat:
  assumes "b < 16"
  shows "blockPage (word_of_nat b) =
           word_of_nat (if 0x1f < b * 4 + 1 then b * 4 + 1 - 0x1f else b * 4 + 1)"
proof -
  have "b = 0 \<or> b = 1 \<or> b = 2 \<or> b = 3 \<or> b = 4 \<or> b = 5 \<or> b = 6 \<or> b = 7
      \<or> b = 8 \<or> b = 9 \<or> b = 10 \<or> b = 11 \<or> b = 12 \<or> b = 13 \<or> b = 14 \<or> b = 15"
    using assms by presburger
  then show ?thesis
    by (elim disjE) (simp_all add: blockPage_def)
qed

lemma Convert_block:
  assumes "length rom = 4096" and "b < 16"
  shows "\<exists>pre post. Convert rom = Inr (wav_Bytes (writeBytes packer
            (pre @ [blockPage (word_of_nat b), blockChecksum rom (word_of_nat b)]
                 @ take 256 (drop (b * 256) rom) @ post) startWav))
          \<and> length pre = 353 + 258 * b \<and> length post = 258 * (15 - b) + 344"
proof -
  define f where "f = (\<lambda>k. [blockPage (word_of_nat k), blockChecksum rom (word_of_nat k)]
                            @ take 256 (drop (k * 256) rom))"
  define hdr where "hdr = replicate 344 0x55 @ [0x54 :: byte]
       @ [rom ! 4092, rom ! 4093, 0x1d, 0x10,
          0x55 - rom ! 4092 - rom ! 4093 - 0x1d - 0x10 - 0 - 0xc3 - 0x01,
          0, 0xc3, 0x01]"
  have len_f: "length (f k) = 258" if "k < 16" for k
    using that assms(1) by (simp add: f_def)
  have len_concat: "length (concat (map f [i..<j])) = 258 * (j - i)" if "j \<le> 16" for i j
  proof -
    have eq: "map (length \<circ> f) [i..<j] = map (\<lambda>_. 258) [i..<j]"
      using that by (intro map_cong) (auto simp add: len_f)
    show ?thesis
      unfolding length_concat map_map eq by (simp add: sum_list_triv)
  qed
  have split: "[0..<16] = [0..<b] @ b # [Suc b..<16]"
    using assms(2) upt_add_eq_append [of 0 b "16 - b"] by (simp add: upt_conv_Cons)
  have tape: "Convert_wav rom = writeBytes packer (hdr @ concat (map f [0..<16]) @ replicate 344 0x55) startWav"
    unfolding hdr_def f_def using Convert_wav_tape [OF assms(1)] by simp
  let ?pre = "hdr @ concat (map f [0..<b])"
  let ?post = "concat (map f [Suc b..<16]) @ replicate 344 (0x55 :: byte)"
  have "hdr @ concat (map f [0..<16]) @ replicate 344 0x55 = ?pre @ f b @ ?post"
    by (simp add: split)
  then have "Convert rom = Inr (wav_Bytes (writeBytes packer
            (?pre @ [blockPage (word_of_nat b), blockChecksum rom (word_of_nat b)]
                 @ take 256 (drop (b * 256) rom) @ ?post) startWav))"
    using tape assms(1) by (simp add: Convert_4096 f_def)
  moreover have "length ?pre = 353 + 258 * b"
    using assms(2) len_concat [of b 0] by (simp add: hdr_def)
  moreover have "length ?post = 258 * (15 - b) + 344"
    using len_concat [of 16 "Suc b"] by simp
  ultimately show ?thesis
    by blast
qed

lemma Convert_header:
  assumes "length rom = 4096"
  shows "\<exists>post. Convert rom = Inr (wav_Bytes (writeBytes packer
            (replicate 344 0x55 @ [0x54]
             @ [rom ! 4092, rom ! 4093, 0x1d, 0x10,
                0x55 - rom ! 4092 - rom ! 4093 - 0x1d - 0x10 - 0 - 0xc3 - 0x01,
                0, 0xc3, 0x01]
             @ post) startWav))
          \<and> length post = 16 * 258 + 344"
proof -
  let ?f = "\<lambda>k. [blockPage (word_of_nat k), blockChecksum rom (word_of_nat k)]
                            @ take 256 (drop (k * 256) rom)"
  let ?post = "concat (map ?f [0..<16]) @ replicate 344 (0x55 :: byte)"
  have eq: "map (length \<circ> ?f) [0..<16] = map (\<lambda>_. 258) [0..<16]"
    using assms by (intro map_cong) auto
  have "length (concat (map ?f [0..<16])) = 16 * 258"
    unfolding length_concat map_map eq by (simp add: sum_list_triv)
  then have "length ?post = 16 * 258 + 344"
    by simp
  moreover have "Convert rom = Inr (wav_Bytes (writeBytes packer
            (replicate 344 0x55 @ [0x54]
             @ [rom ! 4092, rom ! 4093, 0x1d, 0x10,
                0x55 - rom ! 4092 - rom ! 4093 - 0x1d - 0x10 - 0 - 0xc3 - 0x01,
                0, 0xc3, 0x01]
             @ ?post) startWav))"
    using assms by (simp only: Convert_4096 Convert_wav_tape)
  ultimately show ?thesis
    by blast
qed

text \<open>
  Claim C3. For every rom of 4096 bytes and every block \<open>b\<close> below 16, the tape holds
  at the offset of block \<open>b\<close> the page, the checksum and the 256 bytes of the block,
  where the checksum is \<open>0x55\<close> minus the page minus the sum of the 256 bytes in
  8-bit arithmetic; the page, the 256 bytes and the checksum, added as numbers, are
  \<open>0x55\<close> modulo 256.
\<close>

theorem block_checksum:
  assumes "length rom = 4096" and "b < 16"
  shows "\<exists>pre post page checksum blk.
           Convert rom = Inr (wav_Bytes (writeBytes packer
             (pre @ [page, checksum] @ blk @ post) startWav))
         \<and> length pre = 353 + 258 * b
         \<and> page = blockPage (word_of_nat b)
         \<and> blk = take 256 (drop (b * 256) rom) \<and> length blk = 256
         \<and> checksum = 0x55 - page - sum_list blk
         \<and> (unat page + sum_list (map unat blk) + unat checksum) mod 256 = 0x55"
proof -
  define page where "page = blockPage (word_of_nat b)"
  define blk where "blk = take 256 (drop (b * 256) rom)"
  define checksum where "checksum = blockChecksum rom (word_of_nat b)"
  have b: "unat (word_of_nat b :: byte) = b"
    using assms(2) by (simp add: unat_of_nat)
  have cks: "checksum = 0x55 - page - sum_list blk"
    by (simp add: checksum_def blockChecksum_eq page_def blk_def b)
  let ?n = "unat page + sum_list (map unat blk) + unat checksum"
  have w: "word_of_nat ?n = (0x55 :: byte)"
    by (simp add: word_of_nat_sum_list_unat cks)
  have "?n mod 256 = unat (word_of_nat ?n :: byte)"
    unfolding unat_of_nat by simp
  also have "\<dots> = 0x55"
    unfolding w by simp
  finally have sum: "?n mod 256 = 0x55" .
  have len: "length blk = 256"
    using assms by (simp add: blk_def)
  obtain pre post where "Convert rom = Inr (wav_Bytes (writeBytes packer
            (pre @ [page, checksum] @ blk @ post) startWav))"
    and "length pre = 353 + 258 * b"
    using Convert_block [OF assms] unfolding page_def checksum_def blk_def by blast
  with cks sum len show ?thesis
    unfolding page_def blk_def by blast
qed

theorem block_checksum_witness:
  "length (replicate 4096 (0 :: byte)) = 4096 \<and> (3 :: nat) < 16
   \<and> (\<exists>pre post page checksum blk.
           Convert (replicate 4096 0) = Inr (wav_Bytes (writeBytes packer
             (pre @ [page, checksum] @ blk @ post) startWav))
         \<and> length pre = 353 + 258 * 3
         \<and> page = blockPage (word_of_nat 3)
         \<and> blk = take 256 (drop (3 * 256) (replicate 4096 0)) \<and> length blk = 256
         \<and> checksum = 0x55 - page - sum_list blk
         \<and> (unat page + sum_list (map unat blk) + unat checksum) mod 256 = 0x55)"
proof -
  have len: "length (replicate 4096 (0 :: byte)) = 4096"
    by simp
  have b: "(3 :: nat) < 16"
    by simp
  show ?thesis
    by (rule conjI [OF len conjI [OF b block_checksum [OF len b]]])
qed

text \<open>
  Claim C4. For every rom of 4096 bytes the checksum byte of the header is \<open>0x55\<close>
  minus each of the other seven header bytes in 8-bit arithmetic, and the eight
  header bytes, added as numbers, are \<open>0x55\<close> modulo 256.
\<close>

theorem header_checksum:
  assumes "length rom = 4096"
  shows "\<exists>post checksum.
           Convert rom = Inr (wav_Bytes (writeBytes packer
             (replicate 344 0x55 @ [0x54]
              @ [rom ! 4092, rom ! 4093, 0x1d, 0x10, checksum, 0, 0xc3, 0x01]
              @ post) startWav))
         \<and> checksum = 0x55 - rom ! 4092 - rom ! 4093 - 0x1d - 0x10 - 0 - 0xc3 - 0x01
         \<and> (unat (rom ! 4092) + unat (rom ! 4093) + 0x1d + 0x10 + unat checksum
              + 0 + 0xc3 + 0x01) mod 256 = 0x55"
proof -
  define checksum :: byte
    where "checksum = 0x55 - rom ! 4092 - rom ! 4093 - 0x1d - 0x10 - 0 - 0xc3 - 0x01"
  let ?n = "unat (rom ! 4092) + unat (rom ! 4093) + 0x1d + 0x10 + unat checksum
              + 0 + 0xc3 + 0x01"
  have w: "word_of_nat ?n = (0x55 :: byte)"
    by (simp add: checksum_def)
  have "?n mod 256 = unat (word_of_nat ?n :: byte)"
    unfolding unat_of_nat by simp
  also have "\<dots> = 0x55"
    unfolding w by simp
  finally have sum: "?n mod 256 = 0x55" .
  obtain post where "Convert rom = Inr (wav_Bytes (writeBytes packer
             (replicate 344 0x55 @ [0x54]
              @ [rom ! 4092, rom ! 4093, 0x1d, 0x10, checksum, 0, 0xc3, 0x01]
              @ post) startWav))"
    using Convert_header [OF assms] unfolding checksum_def by blast
  with sum show ?thesis
    unfolding checksum_def by blast
qed

theorem header_checksum_witness:
  "length (replicate 4096 (0 :: byte)) = 4096
   \<and> (\<exists>post checksum.
           Convert (replicate 4096 0) = Inr (wav_Bytes (writeBytes packer
             (replicate 344 0x55 @ [0x54]
              @ [replicate 4096 0 ! 4092, replicate 4096 0 ! 4093, 0x1d, 0x10, checksum,
                 0, 0xc3, 0x01]
              @ post) startWav))
         \<and> checksum = 0x55 - replicate 4096 0 ! 4092 - replicate 4096 0 ! 4093
                        - 0x1d - 0x10 - 0 - 0xc3 - 0x01
         \<and> (unat (replicate 4096 (0 :: byte) ! 4092) + unat (replicate 4096 (0 :: byte) ! 4093)
              + 0x1d + 0x10 + unat checksum + 0 + 0xc3 + 0x01) mod 256 = 0x55)"
proof -
  have len: "length (replicate 4096 (0 :: byte)) = 4096"
    by simp
  show ?thesis
    by (rule conjI [OF len header_checksum [OF len]])
qed

text \<open>
  Claim C5. For every rom of 4096 bytes the tape holds, after the calibration run and
  the sync byte, the eight header bytes in the order addressLow, addressHigh,
  bankConfig, blockCount, checksum, multiload, progressSpeedLow, progressSpeedHigh,
  with addressLow and addressHigh the rom's bytes at \<open>len - 4\<close> and \<open>len - 3\<close>,
  bankConfig \<open>0x1d\<close>, blockCount \<open>len / 256 = 16\<close>, multiload 0 and the progress
  speed \<open>0xc3\<close>, \<open>0x01\<close>; the 16 blocks and the trailer follow.
\<close>

theorem header_order:
  assumes "length rom = 4096"
  shows "\<exists>addressLow addressHigh bankConfig blockCount checksum multiload
            progressSpeedLow progressSpeedHigh post.
           Convert rom = Inr (wav_Bytes (writeBytes packer
             (replicate 344 0x55 @ [0x54]
              @ [addressLow, addressHigh, bankConfig, blockCount, checksum, multiload,
                 progressSpeedLow, progressSpeedHigh]
              @ post) startWav))
         \<and> addressLow = rom ! (length rom - 4) \<and> addressHigh = rom ! (length rom - 3)
         \<and> bankConfig = 0x1d
         \<and> blockCount = word_of_nat (length rom div 256) \<and> blockCount = 16
         \<and> checksum = 0x55 - addressLow - addressHigh - bankConfig - blockCount - multiload
                        - progressSpeedLow - progressSpeedHigh
         \<and> multiload = 0 \<and> progressSpeedLow = 0xc3 \<and> progressSpeedHigh = 0x01
         \<and> length post = 16 * 258 + 344"
proof -
  obtain post where "Convert rom = Inr (wav_Bytes (writeBytes packer
            (replicate 344 0x55 @ [0x54]
             @ [rom ! 4092, rom ! 4093, 0x1d, 0x10,
                0x55 - rom ! 4092 - rom ! 4093 - 0x1d - 0x10 - 0 - 0xc3 - 0x01,
                0, 0xc3, 0x01]
             @ post) startWav))"
    and "length post = 16 * 258 + 344"
    using Convert_header [OF assms] by blast
  moreover have "rom ! 4092 = rom ! (length rom - 4)" "rom ! 4093 = rom ! (length rom - 3)"
    and "(0x10 :: byte) = word_of_nat (length rom div 256)"
    using assms by simp_all
  ultimately show ?thesis
    by blast
qed

theorem header_order_witness:
  "length (replicate 4096 (0 :: byte)) = 4096
   \<and> (\<exists>addressLow addressHigh bankConfig blockCount checksum multiload
            progressSpeedLow progressSpeedHigh post.
           Convert (replicate 4096 0) = Inr (wav_Bytes (writeBytes packer
             (replicate 344 0x55 @ [0x54]
              @ [addressLow, addressHigh, bankConfig, blockCount, checksum, multiload,
                 progressSpeedLow, progressSpeedHigh]
              @ post) startWav))
         \<and> addressLow = replicate 4096 0 ! (length (replicate 4096 (0 :: byte)) - 4)
         \<and> addressHigh = replicate 4096 0 ! (length (replicate 4096 (0 :: byte)) - 3)
         \<and> bankConfig = 0x1d
         \<and> blockCount = word_of_nat (length (replicate 4096 (0 :: byte)) div 256)
         \<and> blockCount = 16
         \<and> checksum = 0x55 - addressLow - addressHigh - bankConfig - blockCount - multiload
                        - progressSpeedLow - progressSpeedHigh
         \<and> multiload = 0 \<and> progressSpeedLow = 0xc3 \<and> progressSpeedHigh = 0x01
         \<and> length post = 16 * 258 + 344)"
proof -
  have len: "length (replicate 4096 (0 :: byte)) = 4096"
    by simp
  show ?thesis
    by (rule conjI [OF len header_order [OF len]])
qed

text \<open>
  Claim C6. For every rom of 4096 bytes and every block \<open>b\<close> below 16, the byte on the
  tape at the offset of block \<open>b\<close> is the number \<open>b * 4 + 1\<close>, less \<open>0x1f\<close> once
  when it is above \<open>0x1f\<close>; block 0 has page 1, block 7 page 29 and block 8 page 2.
\<close>

theorem block_page:
  assumes "length rom = 4096" and "b < 16"
  shows "(\<exists>pre post.
            Convert rom = Inr (wav_Bytes (writeBytes packer
              (pre @ [word_of_nat (if 0x1f < b * 4 + 1 then b * 4 + 1 - 0x1f else b * 4 + 1)]
                   @ post) startWav))
          \<and> length pre = 353 + 258 * b \<and> length post = 257 + 258 * (15 - b) + 344)
         \<and> blockPage (word_of_nat b)
             = word_of_nat (if 0x1f < b * 4 + 1 then b * 4 + 1 - 0x1f else b * 4 + 1)
         \<and> blockPage 0 = 1 \<and> blockPage 7 = 29 \<and> blockPage 8 = 2"
proof -
  obtain pre post where conv: "Convert rom = Inr (wav_Bytes (writeBytes packer
            (pre @ [blockPage (word_of_nat b), blockChecksum rom (word_of_nat b)]
                 @ take 256 (drop (b * 256) rom) @ post) startWav))"
    and pre: "length pre = 353 + 258 * b" and post: "length post = 258 * (15 - b) + 344"
    using Convert_block [OF assms] by blast
  let ?post = "blockChecksum rom (word_of_nat b) # take 256 (drop (b * 256) rom) @ post"
  have "Convert rom = Inr (wav_Bytes (writeBytes packer
      (pre @ [word_of_nat (if 0x1f < b * 4 + 1 then b * 4 + 1 - 0x1f else b * 4 + 1)]
           @ ?post) startWav))"
    using conv by (simp only: blockPage_nat [OF assms(2)] append_Cons append_Nil)
  moreover have "length ?post = 257 + 258 * (15 - b) + 344"
    using assms post by simp
  moreover have "blockPage 0 = 1" "blockPage 7 = 29" "blockPage 8 = 2"
    by (simp_all add: blockPage_def)
  ultimately show ?thesis
    using pre blockPage_nat [OF assms(2)] by blast
qed

theorem block_page_witness:
  "length (replicate 4096 (0 :: byte)) = 4096 \<and> (8 :: nat) < 16
   \<and> (\<exists>pre post.
            Convert (replicate 4096 0) = Inr (wav_Bytes (writeBytes packer
              (pre @ [word_of_nat (if 0x1f < (8 :: nat) * 4 + 1 then 8 * 4 + 1 - 0x1f else 8 * 4 + 1)]
                   @ post) startWav))
          \<and> length pre = 353 + 258 * 8 \<and> length post = 257 + 258 * (15 - 8) + 344)
   \<and> blockPage (word_of_nat 8)
       = word_of_nat (if 0x1f < (8 :: nat) * 4 + 1 then 8 * 4 + 1 - 0x1f else 8 * 4 + 1)
   \<and> blockPage 0 = 1 \<and> blockPage 7 = 29 \<and> blockPage 8 = 2"
proof -
  have len: "length (replicate 4096 (0 :: byte)) = 4096"
    by simp
  have b: "(8 :: nat) < 16"
    by simp
  show ?thesis
    by (rule conjI [OF len conjI [OF b block_page [OF len b]]])
qed

subsection \<open>The sample count of a conversion\<close>

lemma length_writeBytes:
  assumes "channels w = 1"
  shows "length (data (writeBytes packer bs w)) = length (data w) + sum_list (map byteSamples bs)"
proof -
  have l1: "length (oneBit packer) = 10" and l0: "length (zeroBit packer) = 6"
    by (simp_all add: newBitPacker_def tone_length oneToneCycle_def zeroToneCycle_def)
  have "length (concat (map (\<lambda>k. if bit b k then oneBit packer else zeroBit packer)
        [7, 6, 5, 4, 3, 2, 1, 0])) = byteSamples b" for b :: byte
    by (simp add: l1 l0 byteSamples_def)
  then show ?thesis
    unfolding writeBytes_data [OF assms]
    by (simp add: length_concat o_def del: concat.simps map_append)
qed

lemma zero_rom_block:
  "k < 16 \<Longrightarrow> take 256 (drop (k * 256) (replicate 4096 (0 :: byte))) = replicate 256 0"
  by (simp add: min_def)

lemma byteSamples_values:
  "byteSamples 0x55 = 64" "byteSamples 0x54 = 60" "byteSamples 0 = 48" "byteSamples 0x1d = 64"
  "byteSamples 0x10 = 52" "byteSamples 0x64 = 60" "byteSamples 0xc3 = 64" "byteSamples 1 = 52"
  by (simp_all add: byteSamples_def)


lemma sum_list_map_concat:
  "sum_list (map g (concat (map f ks))) = (\<Sum>k\<leftarrow>ks. sum_list (map g (f k)))"
  for g :: "'a \<Rightarrow> nat"
  by (induction ks) simp_all

lemma zero_rom_blocks_samples:
  "(\<Sum>k\<leftarrow>[0..<16]. sum_list (map byteSamples
       ([blockPage (word_of_nat k), blockChecksum (replicate 4096 0) (word_of_nat k)]
        @ take 256 (drop (k * 256) (replicate 4096 0))))) = 198528"
proof -
  have upt16: "[0..<16] = [0, 1, 2, 3, 4, 5, 6, 7, 8, 9, 10, 11, 12, 13, 14, 15]"
    by (simp add: upt_conv_Cons)
  have cks: "blockChecksum (replicate 4096 0) (word_of_nat k) = 0x55 - blockPage (word_of_nat k)"
    if "k < 16" for k
    using that by (simp add: blockChecksum_eq unat_of_nat zero_rom_block sum_list_replicate)
  have one: "sum_list (map byteSamples
       ([blockPage (word_of_nat k), blockChecksum (replicate 4096 0) (word_of_nat k)]
        @ take 256 (drop (k * 256) (replicate 4096 0))))
      = byteSamples (blockPage (word_of_nat k)) + byteSamples (0x55 - blockPage (word_of_nat k))
        + 12288" if "k < 16" for k
    using that
    by (simp add: cks zero_rom_block map_replicate_const sum_list_replicate byteSamples_values)
  have "(\<Sum>k\<leftarrow>[0..<16]. sum_list (map byteSamples
       ([blockPage (word_of_nat k), blockChecksum (replicate 4096 0) (word_of_nat k)]
        @ take 256 (drop (k * 256) (replicate 4096 0)))))
     = (\<Sum>k\<leftarrow>[0..<16]. byteSamples (blockPage (word_of_nat k))
          + byteSamples (0x55 - blockPage (word_of_nat k)) + 12288)"
    by (intro arg_cong [where f = sum_list] map_cong refl, rule one, simp)
  also have "\<dots> = 198528"
    unfolding upt16 by (simp add: blockPage_def byteSamples_def)
  finally show ?thesis .
qed

lemma zero_rom_samples: "length (data (Convert_wav (replicate 4096 0))) = 247442"
proof -
  have len: "length (replicate 4096 (0 :: byte)) = 4096"
    by simp
  have ch: "channels startWav = 1"
    by simp
  have start: "length (data startWav) = 4386"
    by (simp add: length_concat tone_length sum_list_replicate)
  have hdr: "sum_list (map byteSamples
       [replicate 4096 0 ! 4092, replicate 4096 0 ! 4093, 0x1d, 0x10,
        0x55 - replicate 4096 0 ! 4092 - replicate 4096 0 ! 4093 - 0x1d - 0x10 - 0 - 0xc3 - 0x01,
        0, 0xc3, 0x01]) = 436"
  proof -
    have "byteSamples (- 156) = byteSamples 0x64"
      by (rule arg_cong [where f = byteSamples]) simp
    then show ?thesis
      by (simp add: byteSamples_values)
  qed
  have run: "sum_list (map byteSamples (replicate 344 0x55)) = 22016"
    by (simp add: map_replicate_const sum_list_replicate byteSamples_values)
  define f where "f = (\<lambda>k. [blockPage (word_of_nat k),
        blockChecksum (replicate 4096 0) (word_of_nat k)]
        @ take 256 (drop (k * 256) (replicate 4096 0)))"
  have blocks: "(\<Sum>k\<leftarrow>[0..<16]. sum_list (map byteSamples (f k))) = 198528"
    unfolding f_def by (rule zero_rom_blocks_samples)
  have tape: "Convert_wav (replicate 4096 0) = writeBytes packer
      (replicate 344 0x55 @ [0x54]
       @ [replicate 4096 0 ! 4092, replicate 4096 0 ! 4093, 0x1d, 0x10,
          0x55 - replicate 4096 0 ! 4092 - replicate 4096 0 ! 4093 - 0x1d - 0x10 - 0 - 0xc3 - 0x01,
          0, 0xc3, 0x01]
       @ concat (map f [0..<16]) @ replicate 344 0x55) startWav"
    unfolding f_def by (rule Convert_wav_tape [OF len])
  show ?thesis
    unfolding tape length_writeBytes [OF ch] map_append sum_list_append
      sum_list_map_concat blocks hdr run start
    by (simp add: byteSamples_values)
qed

text \<open>
  Claim C2 on the rom of 4096 zero bytes: the wav holds 247442 samples and the file
  has 247486 bytes, which is 44 more and not 52 more.
\<close>

theorem container_length_counterexample:
  "Convert (replicate 4096 0) = Inr (wav_Bytes (Convert_wav (replicate 4096 0)))
   \<and> length (data (Convert_wav (replicate 4096 0))) = 247442
   \<and> length (wav_Bytes (Convert_wav (replicate 4096 0))) = 247486
   \<and> length (wav_Bytes (Convert_wav (replicate 4096 0)))
       \<noteq> 44 + 8 + length (data (Convert_wav (replicate 4096 0)))"
  by (simp add: Convert_4096 wav_Bytes_length zero_rom_samples)

subsection \<open>Tone synthesis\<close>



lemma sqrt3_bounds: "173 / 100 < sqrt 3" "sqrt 3 < 1733 / 1000"
proof -
  show "173 / 100 < sqrt 3"
    by (rule real_less_rsqrt) (simp add: power2_eq_square)
  show "sqrt 3 < 1733 / 1000"
    by (rule real_less_lsqrt) (simp_all add: power2_eq_square)
qed

lemma tone_float64_exact: "tone_float64 (\<lambda>i. 0) len volume = tone len volume"
  by (simp add: tone_float64_def tone_def)


lemma tone_float64_nth:
  "i < nat len \<Longrightarrow>
   tone_float64 err len volume ! i
     = float_to_byte ((sin (2 * pi / real_of_int len * real i) * volume + 1) * 128 + err i)"
  by (simp add: tone_float64_def Let_def)

lemma uint_float_to_byte_trunc: "uint (float_to_byte y) = float_to_int y mod 256"
  by (simp add: float_to_byte_def uint_word_of_int take_bit_eq_mod)

lemma float_to_int_bounds:
  assumes "0 \<le> Y" and "\<bar>e\<bar> \<le> eps"
  shows "\<lfloor>Y - eps\<rfloor> \<le> float_to_int (Y + e)" and "float_to_int (Y + e) \<le> \<lfloor>Y + eps\<rfloor>"
proof -
  have lo: "Y - eps \<le> Y + e" and hi: "Y + e \<le> Y + eps" and eps: "0 \<le> eps"
    using assms(2) by linarith+
  have fl: "\<lfloor>Y - eps\<rfloor> \<le> \<lfloor>Y + e\<rfloor>" "\<lfloor>Y + e\<rfloor> \<le> \<lfloor>Y + eps\<rfloor>"
    using lo hi by (simp_all add: floor_mono)
  have "\<lfloor>Y - eps\<rfloor> \<le> float_to_int (Y + e) \<and> float_to_int (Y + e) \<le> \<lfloor>Y + eps\<rfloor>"
  proof (cases "Y + e < 0")
    case True
    then have trunc: "float_to_int (Y + e) = \<lceil>Y + e\<rceil>"
      by (simp only: float_to_int_def ceiling_def if_True)
    have "\<lfloor>Y + e\<rfloor> \<le> \<lceil>Y + e\<rceil>"
      by (rule floor_le_ceiling)
    moreover have "\<lceil>Y + e\<rceil> \<le> 0"
      using True by (simp add: ceiling_le_iff)
    moreover have "0 \<le> \<lfloor>Y + eps\<rfloor>"
      using assms(1) eps by simp
    ultimately show ?thesis
      unfolding trunc using fl(1) by linarith
  next
    case False
    then have trunc: "float_to_int (Y + e) = \<lfloor>Y + e\<rfloor>"
      by (simp only: float_to_int_def if_False)
    show ?thesis
      unfolding trunc using fl by (rule conjI)
  qed
  then show "\<lfloor>Y - eps\<rfloor> \<le> float_to_int (Y + e)" and "float_to_int (Y + e) \<le> \<lfloor>Y + eps\<rfloor>"
    by simp_all
qed





text \<open>
  Sample 1 of the zero tone is 236 for every float64 error up to a tenth in \<^verbatim>\<open>y\<close>.
\<close>

lemma zero_tone_sample_1_float64:
  assumes "\<bar>err 1\<bar> \<le> 1 / 10"
  shows "uint (tone_float64 err zeroToneCycle zeroToneVolume ! 1) = 236"
proof -
  define y where "y = sqrt 3 * (6272 / 100) + 128"
  have lo: "2365 / 10 \<le> y" and hi: "y < 2367 / 10"
    using sqrt3_bounds by (simp_all add: y_def)
  have y0: "0 \<le> y"
    using lo by linarith
  have "\<lfloor>y - 1 / 10\<rfloor> = 236" and "\<lfloor>y + 1 / 10\<rfloor> = 236"
    using lo hi by (simp_all add: floor_eq_iff)
  with float_to_int_bounds [OF y0 assms] have k: "float_to_int (y + err 1) = 236"
    by linarith
  have arg: "2 * pi / real_of_int 6 * real 1 = pi / 3"
    by simp
  have y1: "(sin (2 * pi / real_of_int 6 * real 1) * (98 / 100) + 1) * 128 = y"
    unfolding arg sin_60 y_def by (simp add: algebra_simps)
  have "tone_float64 err 6 (98 / 100) ! 1 = float_to_byte (y + err 1)"
    unfolding y1 [symmetric] by (rule tone_float64_nth) simp
  then have "uint (tone_float64 err 6 (98 / 100) ! 1) = float_to_int (y + err 1) mod 256"
    by (simp only: uint_float_to_byte_trunc)
  then show ?thesis
    unfolding zeroToneCycle_def zeroToneVolume_def k by simp
qed


end
